theory Spec2Isabelle
  imports Complex_Main
begin

section \<open>Arrays\<close>

text \<open>
  The program is \<^verbatim>\<open>kalman_filter.py\<close>: a Kalman filter over numpy arrays of
  double-precision numbers. The embedding takes the array elements to be exact real numbers:
  every theorem below is a statement about the arithmetic the code writes down, not about
  its rounding. A one-dimensional array is a list, a two-dimensional array a list of rows,
  a three-dimensional array a list of matrices. A literal such as \<^verbatim>\<open>1e-2\<close> is the
  rational it denotes.

  Python exceptions are values: \<open>IndexError\<close> for an index out of bounds,
  \<open>ShapeError\<close> for the \<^verbatim>\<open>ValueError\<close> numpy raises when shapes do not fit,
  \<open>LinAlgError\<close> for a failed factorisation, and \<open>InvalidMetric\<close> for
  \<^verbatim>\<open>ValueError("Invalid distance metric.")\<close>.
\<close>

datatype error = IndexError | ShapeError | LinAlgError | InvalidMetric

type_synonym vec = "real list"
type_synonym mat = "real list list"

definition mk_vec :: "nat \<Rightarrow> (nat \<Rightarrow> real) \<Rightarrow> vec" where
  "mk_vec n f = map f [0..<n]"

definition mk_mat :: "nat \<Rightarrow> nat \<Rightarrow> (nat \<Rightarrow> nat \<Rightarrow> 'a) \<Rightarrow> 'a list list" where
  "mk_mat r c f = map (\<lambda>i. map (f i) [0..<c]) [0..<r]"

definition ncols :: "'a list list \<Rightarrow> nat" where
  "ncols M = (case M of [] \<Rightarrow> 0 | row # _ \<Rightarrow> length row)"

definition is_mat :: "nat \<Rightarrow> nat \<Rightarrow> 'a list list \<Rightarrow> bool" where
  "is_mat r c M = (length M = r \<and> list_all (\<lambda>row. length row = c) M)"

text \<open>\<^verbatim>\<open>np.eye(r, c)\<close>, \<^verbatim>\<open>np.diag(v)\<close>, \<^verbatim>\<open>M.T\<close>, \<^verbatim>\<open>np.square\<close>,
  \<^verbatim>\<open>np.zeros_like\<close>.\<close>

definition np_eye :: "nat \<Rightarrow> nat \<Rightarrow> mat" where
  "np_eye r c = mk_mat r c (\<lambda>i j. if i = j then 1 else 0)"

definition np_diag :: "vec \<Rightarrow> mat" where
  "np_diag v = mk_mat (length v) (length v) (\<lambda>i j. if i = j then v ! i else 0)"

definition np_T :: "'a list list \<Rightarrow> 'a list list" where
  "np_T M = mk_mat (ncols M) (length M) (\<lambda>i j. M ! j ! i)"

definition np_square :: "vec \<Rightarrow> vec" where
  "np_square v = map (\<lambda>x. x * x) v"

definition np_zeros_like :: "vec \<Rightarrow> vec" where
  "np_zeros_like v = map (\<lambda>_. 0) v"

text \<open>
  \<^verbatim>\<open>np.dot\<close> of a vector with a matrix, of a matrix with a vector and of two
  matrices. numpy raises \<^verbatim>\<open>ValueError\<close> when the contracted dimensions differ. A list
  of rows of different lengths is no numpy array; the model rejects it with the same error.
\<close>

definition np_dot_vm :: "vec \<Rightarrow> mat \<Rightarrow> error + vec" where
  "np_dot_vm v M =
     (if length M = length v \<and> is_mat (length M) (ncols M) M
      then Inr (mk_vec (ncols M) (\<lambda>j. \<Sum>k<length v. v ! k * M ! k ! j))
      else Inl ShapeError)"

definition np_dot_mv :: "mat \<Rightarrow> vec \<Rightarrow> error + vec" where
  "np_dot_mv M v =
     (if is_mat (length M) (length v) M
      then Inr (mk_vec (length M) (\<lambda>i. \<Sum>k<length v. M ! i ! k * v ! k))
      else Inl ShapeError)"

definition np_dot_mm :: "mat \<Rightarrow> mat \<Rightarrow> error + mat" where
  "np_dot_mm A B =
     (if is_mat (length A) (length B) A \<and> is_mat (length B) (ncols B) B
      then Inr (mk_mat (length A) (ncols B) (\<lambda>i j. \<Sum>k<length B. A ! i ! k * B ! k ! j))
      else Inl ShapeError)"

text \<open>
  \<^verbatim>\<open>np.linalg.multi_dot((A, B, C))\<close>: numpy multiplies in the cheaper order and takes
  \<open>A (B C)\<close> when the two costs are equal, which they are for every shape this program
  passes (8x8x8x8, 4x8x8x4 and 8x4x4x8).
\<close>

definition multi_dot :: "mat \<Rightarrow> mat \<Rightarrow> mat \<Rightarrow> error + mat" where
  "multi_dot A B C =
     (case np_dot_mm B C of Inl e \<Rightarrow> Inl e | Inr BC \<Rightarrow> np_dot_mm A BC)"

text \<open>Elementwise sum and difference of two arrays of one shape.\<close>

definition vec_add :: "vec \<Rightarrow> vec \<Rightarrow> vec" where
  "vec_add u v = map2 (+) u v"

definition mat_add :: "mat \<Rightarrow> mat \<Rightarrow> mat" where
  "mat_add A B = map2 vec_add A B"

definition mat_sub :: "mat \<Rightarrow> mat \<Rightarrow> mat" where
  "mat_sub A B = map2 (map2 (-)) A B"

section \<open>The filter\<close>

text \<open>
  \<^verbatim>\<open>KalmanFilter.__init__\<close>: the motion matrix is the 8x8 identity with
  \<^verbatim>\<open>_motion_mat[i, ndim + i] = delta_time_step\<close> written by a loop over
  \<^verbatim>\<open>range(ndim)\<close>; the update matrix is \<^verbatim>\<open>np.eye(4, 8)\<close>.
\<close>

record kalman_filter =
  motion_mat :: mat
  update_mat :: mat
  std_weight_position :: real
  std_weight_velocity :: real

definition set_item :: "mat \<Rightarrow> nat \<Rightarrow> nat \<Rightarrow> real \<Rightarrow> mat" where
  "set_item M i j x = M[i := (M ! i)[j := x]]"

definition KalmanFilter :: kalman_filter where
  "KalmanFilter =
     (let ndim = 4; delta_time_step = 1 in
      \<lparr> motion_mat =
          fold (\<lambda>i M. set_item M i (ndim + i) delta_time_step) [0..<ndim]
            (np_eye (2 * ndim) (2 * ndim)),
        update_mat = np_eye ndim (2 * ndim),
        std_weight_position = 1 / 20,
        std_weight_velocity = 1 / 160 \<rparr>)"

text \<open>
  \<^verbatim>\<open>initiate\<close>: \<^verbatim>\<open>measurement[3]\<close> raises \<^verbatim>\<open>IndexError\<close> on fewer than
  four elements; \<^verbatim>\<open>np.r_[mean_pos, mean_vel]\<close> concatenates.
\<close>

definition initiate :: "kalman_filter \<Rightarrow> vec \<Rightarrow> error + (vec \<times> mat)" where
  "initiate self measurement =
     (let mean_pos = measurement;
          mean_vel = np_zeros_like mean_pos;
          mean = mean_pos @ mean_vel
      in if length measurement < 4 then Inl IndexError
         else
           let std =
             [2 * std_weight_position self * measurement ! 3,
              2 * std_weight_position self * measurement ! 3,
              1 / 100,
              2 * std_weight_position self * measurement ! 3,
              10 * std_weight_velocity self * measurement ! 3,
              10 * std_weight_velocity self * measurement ! 3,
              1 / 100000,
              10 * std_weight_velocity self * measurement ! 3];
             covariance = np_diag (np_square std)
           in Inr (mean, covariance))"

text \<open>
  \<^verbatim>\<open>predict\<close>: \<^verbatim>\<open>mean[3]\<close> is read before \<^verbatim>\<open>mean\<close> is reassigned, so the
  process noise is scaled by the height of the incoming state.
\<close>

definition predict :: "kalman_filter \<Rightarrow> vec \<Rightarrow> mat \<Rightarrow> error + (vec \<times> mat)" where
  "predict self mean covariance =
     (if length mean < 4 then Inl IndexError
      else
        let std_pos =
              [std_weight_position self * mean ! 3,
               std_weight_position self * mean ! 3,
               1 / 100,
               std_weight_position self * mean ! 3];
            std_vel =
              [std_weight_velocity self * mean ! 3,
               std_weight_velocity self * mean ! 3,
               1 / 100000,
               std_weight_velocity self * mean ! 3];
            motion_cov = np_diag (np_square (std_pos @ std_vel))
        in case np_dot_vm mean (np_T (motion_mat self)) of
             Inl e \<Rightarrow> Inl e
           | Inr mean' \<Rightarrow>
               (case multi_dot (motion_mat self) covariance (np_T (motion_mat self)) of
                  Inl e \<Rightarrow> Inl e
                | Inr c \<Rightarrow> Inr (mean', mat_add c motion_cov)))"

definition project :: "kalman_filter \<Rightarrow> vec \<Rightarrow> mat \<Rightarrow> error + (vec \<times> mat)" where
  "project self mean covariance =
     (if length mean < 4 then Inl IndexError
      else
        let std =
              [std_weight_position self * mean ! 3,
               std_weight_position self * mean ! 3,
               1 / 10,
               std_weight_position self * mean ! 3];
            innovation_cov = np_diag (np_square std)
        in case np_dot_mv (update_mat self) mean of
             Inl e \<Rightarrow> Inl e
           | Inr mean' \<Rightarrow>
               (case multi_dot (update_mat self) covariance (np_T (update_mat self)) of
                  Inl e \<Rightarrow> Inl e
                | Inr c \<Rightarrow> Inr (mean', mat_add c innovation_cov)))"





section \<open>Factorisation and triangular solves\<close>

text \<open>
  Modelled from the spec: \<^verbatim>\<open>scipy.linalg.cho_factor\<close>, \<^verbatim>\<open>scipy.linalg.cho_solve\<close>,
  \<^verbatim>\<open>np.linalg.cholesky\<close> and \<^verbatim>\<open>scipy.linalg.solve_triangular\<close> are library
  routines outside the repository. The spec describes them as a lower Cholesky factorisation
  that fails on a matrix that is not positive definite, and as forward and backward
  substitution against the triangular factor. They are modelled by the textbook algorithms:
  the factorisation reads the lower triangle only, computes the factor row by row, and fails
  at the first pivot that is not positive.

  \<open>forward_sub L b n\<close> is the first \<open>n\<close> entries of the solution \<open>y\<close> of \<open>L y = b\<close>;
  \<open>back_sub L y n m\<close> is the last \<open>m\<close> entries of the solution \<open>x\<close> of
  \<open>L\<^sup>T x = y\<close>, for an \<open>n\<close>-row factor.
\<close>

primrec forward_sub :: "mat \<Rightarrow> vec \<Rightarrow> nat \<Rightarrow> vec" where
  "forward_sub L b 0 = []"
| "forward_sub L b (Suc i) =
     (let ys = forward_sub L b i
      in ys @ [(b ! i - (\<Sum>k<i. L ! i ! k * ys ! k)) / L ! i ! i])"

primrec back_sub :: "mat \<Rightarrow> vec \<Rightarrow> nat \<Rightarrow> nat \<Rightarrow> vec" where
  "back_sub L y n 0 = []"
| "back_sub L y n (Suc m) =
     (let xs = back_sub L y n m; i = n - Suc m
      in ((y ! i - (\<Sum>k<m. L ! (Suc i + k) ! i * xs ! k)) / L ! i ! i) # xs)"

primrec chol_rows :: "mat \<Rightarrow> nat \<Rightarrow> error + mat" where
  "chol_rows S 0 = Inr []"
| "chol_rows S (Suc i) =
     (case chol_rows S i of
        Inl e \<Rightarrow> Inl e
      | Inr L \<Rightarrow>
          (let l = forward_sub L (S ! i) i;
               d = S ! i ! i - (\<Sum>k<i. l ! k * l ! k)
           in if d \<le> 0 then Inl LinAlgError else Inr (L @ [l @ [sqrt d]])))"

definition cholesky :: "mat \<Rightarrow> error + mat" where
  "cholesky S =
     (case chol_rows S (length S) of
        Inl e \<Rightarrow> Inl e
      | Inr L \<Rightarrow> Inr (map (\<lambda>row. row @ replicate (length S - length row) 0) L))"

definition cho_factor :: "mat \<Rightarrow> error + mat" where
  "cho_factor S = cholesky S"

definition solve_triangular :: "mat \<Rightarrow> mat \<Rightarrow> mat" where
  "solve_triangular L B = np_T (map (\<lambda>b. forward_sub L b (length L)) (np_T B))"

definition cho_solve :: "mat \<Rightarrow> mat \<Rightarrow> mat" where
  "cho_solve L B =
     np_T (map (\<lambda>b. back_sub L (forward_sub L b (length L)) (length L) (length L)) (np_T B))"

section \<open>Correction and gating\<close>

text \<open>
  \<^verbatim>\<open>measurement - projected_mean\<close> and \<^verbatim>\<open>measurements - mean\<close> follow numpy's
  broadcasting: the trailing dimensions must be equal, or one of them is 1 and is stretched.
  An empty batch has no row to read its width from; the model takes it to fit the mean.
\<close>

definition sub_broadcast :: "vec \<Rightarrow> vec \<Rightarrow> vec" where
  "sub_broadcast a b =
     (if length a = length b then map2 (-) a b
      else if length a = 1 then map (\<lambda>y. a ! 0 - y) b
      else map (\<lambda>x. x - b ! 0) a)"

definition np_sub_vv :: "vec \<Rightarrow> vec \<Rightarrow> error + vec" where
  "np_sub_vv a b =
     (if length a = length b \<or> length a = 1 \<or> length b = 1
      then Inr (sub_broadcast a b)
      else Inl ShapeError)"

definition np_sub_mv :: "mat \<Rightarrow> vec \<Rightarrow> error + mat" where
  "np_sub_mv M b =
     (if M = [] then Inr []
      else if is_mat (length M) (ncols M) M \<and>
              (ncols M = length b \<or> ncols M = 1 \<or> length b = 1)
      then Inr (map (\<lambda>row. sub_broadcast row b) M)
      else Inl ShapeError)"

definition update :: "kalman_filter \<Rightarrow> vec \<Rightarrow> mat \<Rightarrow> vec \<Rightarrow> error + (vec \<times> mat)" where
  "update self mean covariance measurement =
     (case project self mean covariance of
        Inl e \<Rightarrow> Inl e
      | Inr (projected_mean, projected_cov) \<Rightarrow>
          (case cho_factor projected_cov of
             Inl e \<Rightarrow> Inl e
           | Inr chol_factor \<Rightarrow>
               (case np_dot_mm covariance (np_T (update_mat self)) of
                  Inl e \<Rightarrow> Inl e
                | Inr b \<Rightarrow>
                    (let kalman_gain = np_T (cho_solve chol_factor (np_T b))
                     in case np_sub_vv measurement projected_mean of
                          Inl e \<Rightarrow> Inl e
                        | Inr innovation \<Rightarrow>
                            (case np_dot_vm innovation (np_T kalman_gain) of
                               Inl e \<Rightarrow> Inl e
                             | Inr delta \<Rightarrow>
                                 (case multi_dot kalman_gain projected_cov (np_T kalman_gain) of
                                    Inl e \<Rightarrow> Inl e
                                  | Inr g \<Rightarrow>
                                      Inr (vec_add mean delta, mat_sub covariance g)))))))"

definition np_sum_axis0 :: "mat \<Rightarrow> vec" where
  "np_sum_axis0 M = mk_vec (ncols M) (\<lambda>j. \<Sum>i<length M. M ! i ! j)"

definition np_sum_axis1 :: "mat \<Rightarrow> vec" where
  "np_sum_axis1 M = map sum_list M"

definition gating_distance ::
  "kalman_filter \<Rightarrow> vec \<Rightarrow> mat \<Rightarrow> mat \<Rightarrow> bool \<Rightarrow> string \<Rightarrow> error + vec" where
  "gating_distance self mean covariance measurements only_position metric =
     (case project self mean covariance of
        Inl e \<Rightarrow> Inl e
      | Inr (mean0, covariance0) \<Rightarrow>
          (let mean1 = (if only_position then take 2 mean0 else mean0);
               covariance1 =
                 (if only_position then map (take 2) (take 2 covariance0) else covariance0);
               measurements1 =
                 (if only_position then map (take 2) measurements else measurements)
           in case np_sub_mv measurements1 mean1 of
                Inl e \<Rightarrow> Inl e
              | Inr dist1 \<Rightarrow>
                  if metric = ''gaussian'' then Inr (np_sum_axis1 (map np_square dist1))
                  else if metric = ''maha'' then
                    (case cholesky covariance1 of
                       Inl e \<Rightarrow> Inl e
                     | Inr cholesky_factor \<Rightarrow>
                         (let maha = solve_triangular cholesky_factor (np_T dist1);
                              squared_maha = np_sum_axis0 (map np_square maha)
                          in Inr squared_maha))
                  else Inl InvalidMetric))"

section \<open>Notions the specification uses\<close>

text \<open>
  The transition matrix as the specification describes it: the identity with
  \<open>A[i, 4 + i] = 1\<close> for \<open>i < 4\<close>; and the diagonal process noise, the squares of the
  eight standard deviations scaled by the height \<open>mean[3]\<close>.
\<close>

definition transition :: "nat \<Rightarrow> nat \<Rightarrow> real" where
  "transition i j = (if i = j \<or> (i < 4 \<and> j = 4 + i) then 1 else 0)"

definition process_std :: "real \<Rightarrow> vec" where
  "process_std h =
     [1 / 20 * h, 1 / 20 * h, 1 / 100, 1 / 20 * h,
      1 / 160 * h, 1 / 160 * h, 1 / 100000, 1 / 160 * h]"

definition process_noise :: "vec \<Rightarrow> nat \<Rightarrow> nat \<Rightarrow> real" where
  "process_noise mean i j = (if i = j then (process_std (mean ! 3) ! i)\<^sup>2 else 0)"

text \<open>Trace, symmetry, and the quadratic form that defines (semi-)definiteness.\<close>

definition trace :: "mat \<Rightarrow> real" where
  "trace M = (\<Sum>i<length M. M ! i ! i)"

definition symmetric :: "nat \<Rightarrow> mat \<Rightarrow> bool" where
  "symmetric n M = (is_mat n n M \<and> np_T M = M)"

definition quad_form :: "nat \<Rightarrow> mat \<Rightarrow> (nat \<Rightarrow> real) \<Rightarrow> real" where
  "quad_form n M x = (\<Sum>i<n. \<Sum>j<n. x i * M ! i ! j * x j)"


definition pd :: "nat \<Rightarrow> mat \<Rightarrow> bool" where
  "pd n M = (\<forall>x. (\<exists>i<n. x i \<noteq> 0) \<longrightarrow> 0 < quad_form n M x)"


text \<open>
  The observation noise of \<^verbatim>\<open>project\<close>, and the distances of
  \<^verbatim>\<open>gating_distance\<close> as the specification words them, one measurement at a time:
  the sum of the squared differences for \<open>gaussian\<close>; for \<open>maha\<close> the sum of the squares
  of the solution of the lower-triangular system of the Cholesky factor against the
  difference; a failure for any other metric.
\<close>

definition observation_std :: "real \<Rightarrow> vec" where
  "observation_std h = [1 / 20 * h, 1 / 20 * h, 1 / 10, 1 / 20 * h]"

definition squared_distances :: "vec \<Rightarrow> mat \<Rightarrow> mat \<Rightarrow> string \<Rightarrow> error + vec" where
  "squared_distances mean covariance measurements metric =
     (if metric = ''gaussian''
      then Inr (map (\<lambda>z. \<Sum>k<length mean. (z ! k - mean ! k)\<^sup>2) measurements)
      else if metric = ''maha''
      then (case cholesky covariance of
              Inl e \<Rightarrow> Inl e
            | Inr L \<Rightarrow>
                Inr (map (\<lambda>z. \<Sum>k<length mean.
                             (forward_sub L (map2 (-) z mean) (length mean) ! k)\<^sup>2)
                       measurements))
      else Inl InvalidMetric)"

text \<open>
  The invariant of the factorisation after \<open>i\<close> rows: row \<open>r\<close> has \<open>r + 1\<close> entries, a
  positive diagonal entry, and the rows multiply to the lower triangle of \<open>S\<close>.
\<close>

definition chol_inv :: "mat \<Rightarrow> nat \<Rightarrow> mat \<Rightarrow> bool" where
  "chol_inv S i L \<longleftrightarrow>
     length L = i \<and>
     (\<forall>r<i. length (L ! r) = Suc r \<and> 0 < L ! r ! r \<and>
        (\<forall>c\<le>r. (\<Sum>k\<le>c. L ! r ! k * L ! c ! k) = S ! r ! c))"

section \<open>Array lemmas\<close>

lemma length_mk_vec [simp]: "length (mk_vec n f) = n"
  by (simp add: mk_vec_def)

lemma nth_mk_vec [simp]: "i < n \<Longrightarrow> mk_vec n f ! i = f i"
  by (simp add: mk_vec_def)

lemma length_mk_mat [simp]: "length (mk_mat r c f) = r"
  by (simp add: mk_mat_def)

lemma nth_mk_mat [simp]: "i < r \<Longrightarrow> mk_mat r c f ! i = map (f i) [0..<c]"
  by (simp add: mk_mat_def)

lemma is_mat_iff: "is_mat r c M \<longleftrightarrow> length M = r \<and> (\<forall>i<r. length (M ! i) = c)"
  by (auto simp: is_mat_def list_all_length)

lemma is_mat_mk_mat [simp]: "is_mat r c (mk_mat r c f)"
  by (simp add: is_mat_iff)

lemma ncols_mk_mat [simp]: "0 < r \<Longrightarrow> ncols (mk_mat r c f) = c"
  by (simp add: ncols_def mk_mat_def upt_conv_Cons split: list.split)

lemma ncols_is_mat: "is_mat r c M \<Longrightarrow> 0 < r \<Longrightarrow> ncols M = c"
  by (cases M) (auto simp: is_mat_def ncols_def)

lemma mk_mat_cong:
  "(\<And>i j. i < r \<Longrightarrow> j < c \<Longrightarrow> f i j = g i j) \<Longrightarrow> mk_mat r c f = mk_mat r c g"
  by (simp add: mk_mat_def)

lemma mk_vec_cong: "(\<And>i. i < n \<Longrightarrow> f i = g i) \<Longrightarrow> mk_vec n f = mk_vec n g"
  by (simp add: mk_vec_def)

lemma is_mat_eq: "is_mat r c M \<Longrightarrow> M = mk_mat r c (\<lambda>i j. M ! i ! j)"
  by (auto simp: is_mat_iff intro!: nth_equalityI)

lemma vec_eq: "length v = n \<Longrightarrow> v = mk_vec n (\<lambda>i. v ! i)"
  by (auto intro!: nth_equalityI)

lemma np_T_mk_mat [simp]: "0 < r \<Longrightarrow> np_T (mk_mat r c f) = mk_mat c r (\<lambda>i j. f j i)"
  by (auto simp: np_T_def intro!: mk_mat_cong)

lemma np_dot_mm_mk [simp]:
  "0 < m \<Longrightarrow> np_dot_mm (mk_mat r m f) (mk_mat m c g) =
     Inr (mk_mat r c (\<lambda>i j. \<Sum>k<m. f i k * g k j))"
  by (auto simp: np_dot_mm_def intro!: mk_mat_cong)

lemma np_dot_vm_mk [simp]:
  "0 < m \<Longrightarrow> np_dot_vm (mk_vec m f) (mk_mat m c g) = Inr (mk_vec c (\<lambda>j. \<Sum>k<m. f k * g k j))"
  by (auto simp: np_dot_vm_def intro!: mk_vec_cong)

lemma np_dot_mv_mk [simp]:
  "np_dot_mv (mk_mat r m f) (mk_vec m g) = Inr (mk_vec r (\<lambda>i. \<Sum>k<m. f i k * g k))"
  by (auto simp: np_dot_mv_def intro!: mk_vec_cong)

lemma multi_dot_mk [simp]:
  "0 < m \<Longrightarrow> 0 < n \<Longrightarrow> multi_dot (mk_mat r m f) (mk_mat m n g) (mk_mat n c h) =
     Inr (mk_mat r c (\<lambda>i j. \<Sum>k<m. f i k * (\<Sum>l<n. g k l * h l j)))"
  by (auto simp: multi_dot_def intro!: mk_mat_cong)

lemma vec_add_mk [simp]: "vec_add (mk_vec n f) (mk_vec n g) = mk_vec n (\<lambda>i. f i + g i)"
  by (auto simp: vec_add_def intro!: nth_equalityI)

lemma mat_add_mk [simp]:
  "mat_add (mk_mat r c f) (mk_mat r c g) = mk_mat r c (\<lambda>i j. f i j + g i j)"
  by (auto simp: mat_add_def vec_add_def intro!: nth_equalityI)

lemma mat_sub_mk [simp]:
  "mat_sub (mk_mat r c f) (mk_mat r c g) = mk_mat r c (\<lambda>i j. f i j - g i j)"
  by (auto simp: mat_sub_def intro!: nth_equalityI)

lemma is_mat_np_eye [simp]: "is_mat r c (np_eye r c)"
  by (simp add: np_eye_def)

lemma is_mat_np_diag: "length v = n \<Longrightarrow> is_mat n n (np_diag v)"
  by (auto simp: np_diag_def)

lemma motion_mat_KalmanFilter:
  "motion_mat KalmanFilter = mk_mat 8 8 (\<lambda>i j. if i = j \<or> j = 4 + i then 1 else 0)"
  by code_simp

lemma update_mat_KalmanFilter:
  "update_mat KalmanFilter = mk_mat 4 8 (\<lambda>i j. if i = j then 1 else 0)"
  by code_simp

lemma weights_KalmanFilter:
  "std_weight_position KalmanFilter = 1 / 20" "std_weight_velocity KalmanFilter = 1 / 160"
  by (simp_all add: KalmanFilter_def)

lemma nth_np_square: "i < length v \<Longrightarrow> np_square v ! i = (v ! i)\<^sup>2"
  by (simp add: np_square_def power2_eq_square)

lemma length_np_square [simp]: "length (np_square v) = length v"
  by (simp add: np_square_def)

lemma length_process_std [simp]: "length (process_std h) = 8"
  by (simp add: process_std_def)

lemma motion_cov_eq:
  "np_diag (np_square (process_std h)) =
     mk_mat 8 8 (\<lambda>i j. if i = j then (process_std h ! i)\<^sup>2 else 0)"
  by (auto simp: np_diag_def nth_np_square intro!: mk_mat_cong)

lemma transition_sum_right:
  "j < 8 \<Longrightarrow> (\<Sum>l<8. f l * (if j = l \<or> l = 4 + j then 1 else 0)) = (\<Sum>l<8. f l * transition j l)"
  by (intro sum.cong refl) (auto simp: transition_def)

section \<open>initiate\<close>





section \<open>predict\<close>

lemma predict_eq:
  assumes "length mean = 8" "is_mat 8 8 covariance"
  shows "predict KalmanFilter mean covariance =
     Inr (mk_vec 8 (\<lambda>i. \<Sum>j<8. transition i j * mean ! j),
          mk_mat 8 8 (\<lambda>i j. (\<Sum>k<8. \<Sum>l<8. transition i k * covariance ! k ! l * transition j l)
                              + process_noise mean i j))"
proof -
  have m: "mean = mk_vec 8 (\<lambda>i. mean ! i)"
    using assms(1) by (rule vec_eq)
  have p: "covariance = mk_mat 8 8 (\<lambda>i j. covariance ! i ! j)"
    using assms(2) by (rule is_mat_eq)
  have std: "[1 / 20 * mean ! 3, 1 / 20 * mean ! 3, 1 / 100, 1 / 20 * mean ! 3] @
      [1 / 160 * mean ! 3, 1 / 160 * mean ! 3, 1 / 100000, 1 / 160 * mean ! 3] =
      process_std (mean ! 3)"
    by (simp add: process_std_def)
  have mean': "np_dot_vm mean (np_T (motion_mat KalmanFilter)) =
      Inr (mk_vec 8 (\<lambda>i. \<Sum>j<8. transition i j * mean ! j))"
    apply (subst m)
    apply (simp add: motion_mat_KalmanFilter)
    apply (rule mk_vec_cong)
    apply (simp add: transition_sum_right mult.commute)
    done
  have cov': "multi_dot (motion_mat KalmanFilter) covariance (np_T (motion_mat KalmanFilter)) =
      Inr (mk_mat 8 8
        (\<lambda>i j. (\<Sum>k<8. \<Sum>l<8. transition i k * covariance ! k ! l * transition j l)))"
    apply (subst p)
    apply (simp add: motion_mat_KalmanFilter)
    apply (rule mk_mat_cong)
    apply (simp add: transition_sum_right sum_distrib_left mult.assoc)
    apply (intro sum.cong refl)
    apply (auto simp: transition_def)
    done
  show ?thesis
    unfolding predict_def Let_def weights_KalmanFilter std mean' cov' motion_cov_eq
    using assms(1)
    by (auto simp: process_noise_def intro!: mk_mat_cong)
qed

text \<open>
  C4. For every 8-vector mean and 8x8 covariance, \<^verbatim>\<open>predict\<close> returns the mean
  \<open>A mean\<close> and the covariance \<open>A covariance A\<^sup>T + Q\<close>, with \<open>A\<close> the
  constant-velocity transition matrix and \<open>Q\<close> the diagonal matrix of the squares of
  (h/20, h/20, 1e-2, h/20, h/160, h/160, 1e-5, h/160), where \<open>h = mean[3]\<close> is the
  height of the state passed in, and 1/20 and 1/160 are the position and velocity weights.
\<close>

theorem predict_transition_and_noise:
  assumes "length mean = 8" and "is_mat 8 8 covariance"
  shows "predict KalmanFilter mean covariance =
     Inr (mk_vec 8 (\<lambda>i. \<Sum>j<8. transition i j * mean ! j),
          mk_mat 8 8 (\<lambda>i j. (\<Sum>k<8. \<Sum>l<8. transition i k * covariance ! k ! l * transition j l)
                              + process_noise mean i j))"
  using assms by (rule predict_eq)

theorem predict_transition_and_noise_witness:
  "length [1, 2, 3, 4, 5, 6, 7, 8 :: real] = 8 \<and> is_mat 8 8 (np_eye 8 8) \<and>
   predict KalmanFilter [1, 2, 3, 4, 5, 6, 7, 8] (np_eye 8 8) =
     Inr (mk_vec 8 (\<lambda>i. \<Sum>j<8. transition i j * [1, 2, 3, 4, 5, 6, 7, 8] ! j),
          mk_mat 8 8 (\<lambda>i j. (\<Sum>k<8. \<Sum>l<8. transition i k * np_eye 8 8 ! k ! l * transition j l)
                              + process_noise [1, 2, 3, 4, 5, 6, 7, 8] i j))"
  using predict_transition_and_noise [of "[1, 2, 3, 4, 5, 6, 7, 8]" "np_eye 8 8"]
  by (simp add: np_eye_def)

text \<open>
  C8. One \<^verbatim>\<open>predict\<close> on the state that \<^verbatim>\<open>initiate\<close> returns for the measurement
  (100, 50, 0.5, 200) leaves the four position and shape components of the mean as they
  were, and every diagonal entry of the covariance is strictly larger afterwards.
\<close>

theorem predict_after_initiate_scenario:
  "initiate KalmanFilter [100, 50, 1 / 2, 200] =
     Inr ([100, 50, 1 / 2, 200, 0, 0, 0, 0],
          np_diag [400, 400, 1 / 10000, 400, 625 / 4, 625 / 4, 1 / 10000000000, 625 / 4]) \<and>
   predict KalmanFilter [100, 50, 1 / 2, 200, 0, 0, 0, 0]
       (np_diag [400, 400, 1 / 10000, 400, 625 / 4, 625 / 4, 1 / 10000000000, 625 / 4]) =
     Inr ([100, 50, 1 / 2, 200, 0, 0, 0, 0],
          [[2625 / 4, 0, 0, 0, 625 / 4, 0, 0, 0],
           [0, 2625 / 4, 0, 0, 0, 625 / 4, 0, 0],
           [0, 0, 2000001 / 10000000000, 0, 0, 0, 1 / 10000000000, 0],
           [0, 0, 0, 2625 / 4, 0, 0, 0, 625 / 4],
           [625 / 4, 0, 0, 0, 2525 / 16, 0, 0, 0],
           [0, 625 / 4, 0, 0, 0, 2525 / 16, 0, 0],
           [0, 0, 1 / 10000000000, 0, 0, 0, 1 / 5000000000, 0],
           [0, 0, 0, 625 / 4, 0, 0, 0, 2525 / 16]]) \<and>
   list_all2 (\<lambda>before after. before < after)
     [400, 400, 1 / 10000, 400, 625 / 4, 625 / 4, 1 / 10000000000, 625 / 4 :: real]
     [2625 / 4, 2625 / 4, 2000001 / 10000000000, 2625 / 4,
      2525 / 16, 2525 / 16, 1 / 5000000000, 2525 / 16]"
  by code_simp

section \<open>multi_predict\<close>













section \<open>project and gating_distance\<close>

lemma sum_delta_left: "i < (n::nat) \<Longrightarrow> (\<Sum>k<n. (if i = k then 1 else 0) * f k) = (f i :: real)"
proof -
  assume "i < n"
  have "(\<Sum>k<n. (if i = k then 1 else 0) * f k) = (\<Sum>k<n. if i = k then f k else 0)"
    by (intro sum.cong refl) simp
  with \<open>i < n\<close> show ?thesis by simp
qed

lemma sum_delta_right: "j < (n::nat) \<Longrightarrow> (\<Sum>k<n. f k * (if j = k then 1 else 0)) = (f j :: real)"
proof -
  assume "j < n"
  have "(\<Sum>k<n. f k * (if j = k then 1 else 0)) = (\<Sum>k<n. if j = k then f k else 0)"
    by (intro sum.cong refl) simp
  with \<open>j < n\<close> show ?thesis by simp
qed

lemma length_observation_std [simp]: "length (observation_std h) = 4"
  by (simp add: observation_std_def)

lemma innovation_cov_eq:
  "np_diag (np_square (observation_std h)) =
     mk_mat 4 4 (\<lambda>i j. if i = j then (observation_std h ! i)\<^sup>2 else 0)"
  by (auto simp: np_diag_def nth_np_square intro!: mk_mat_cong)

lemma project_eq:
  assumes "length mean = 8" "is_mat 8 8 covariance"
  shows "project KalmanFilter mean covariance =
     Inr (take 4 mean,
          mk_mat 4 4 (\<lambda>i j. covariance ! i ! j +
                        (if i = j then (observation_std (mean ! 3) ! i)\<^sup>2 else 0)))"
proof -
  have m: "mean = mk_vec 8 (\<lambda>i. mean ! i)"
    using assms(1) by (rule vec_eq)
  have p: "covariance = mk_mat 8 8 (\<lambda>i j. covariance ! i ! j)"
    using assms(2) by (rule is_mat_eq)
  have std: "[1 / 20 * mean ! 3, 1 / 20 * mean ! 3, 1 / 10, 1 / 20 * mean ! 3] =
      observation_std (mean ! 3)"
    by (simp add: observation_std_def)
  have "mk_vec 4 (\<lambda>i. mean ! i) = take 4 mean"
    using assms(1) by (auto intro!: nth_equalityI)
  then have mean': "np_dot_mv (update_mat KalmanFilter) mean = Inr (take 4 mean)"
    apply (subst m)
    apply (simp add: update_mat_KalmanFilter)
    apply (rule trans[rotated], assumption)
    apply (rule mk_vec_cong)
    apply (simp add: sum_delta_left)
    done
  have cov': "multi_dot (update_mat KalmanFilter) covariance (np_T (update_mat KalmanFilter)) =
      Inr (mk_mat 4 4 (\<lambda>i j. covariance ! i ! j))"
    apply (subst p)
    apply (simp add: update_mat_KalmanFilter)
    apply (rule mk_mat_cong)
    apply (simp add: sum_delta_left sum_delta_right)
    done
  show ?thesis
    unfolding project_def Let_def weights_KalmanFilter std mean' cov' innovation_cov_eq
    using assms(1) by simp
qed

lemma length_forward_sub [simp]: "length (forward_sub L b n) = n"
  by (induction n) (simp_all add: Let_def)

lemma length_chol_rows: "chol_rows S n = Inr L \<Longrightarrow> length L = n"
  by (induction n arbitrary: L) (auto simp: Let_def split: sum.splits if_splits)

lemma length_cholesky: "cholesky S = Inr L \<Longrightarrow> length L = length S"
  by (auto simp: cholesky_def split: sum.splits dest: length_chol_rows)

lemma np_T_Nil [simp]: "np_T [] = []"
  by (simp add: np_T_def ncols_def mk_mat_def)

lemma np_sub_mv_ok:
  assumes "is_mat N d M" "length b = d"
  shows "np_sub_mv M b = Inr (map (\<lambda>row. map2 (-) row b) M)"
proof (cases M)
  case Nil
  then show ?thesis by (simp add: np_sub_mv_def)
next
  case (Cons r rs)
  then have nc: "ncols M = d" and N: "length M = N"
    using assms(1) by (auto simp: ncols_def is_mat_def)
  have rows: "\<forall>row\<in>set M. length row = d"
    using assms(1) by (auto simp: is_mat_def list_all_iff)
  have ne: "M \<noteq> []"
    using Cons by simp
  have shape: "is_mat (length M) (ncols M) M"
    using assms(1) by (simp add: nc N)
  have "map (\<lambda>row. sub_broadcast row b) M = map (\<lambda>row. map2 (-) row b) M"
    using rows assms(2) by (intro map_cong refl) (simp add: sub_broadcast_def)
  then show ?thesis
    using ne shape assms(2) by (simp add: np_sub_mv_def nc)
qed

lemma gaussian_row:
  assumes "length z = length m"
  shows "sum_list (np_square (map2 (-) z m)) = (\<Sum>k<length m. (z ! k - m ! k)\<^sup>2)"
  using assms
  by (simp add: sum_list_sum_nth np_square_def atLeast0LessThan power2_eq_square)

lemma maha_tail:
  assumes "is_mat N d D" "0 < d" "length L = d"
  shows "np_sum_axis0 (map np_square (solve_triangular L (np_T D))) =
     map (\<lambda>z. \<Sum>k<d. (forward_sub L z d ! k)\<^sup>2) D"
proof (cases "N = 0")
  case True
  then have "D = []" using assms(1) by (simp add: is_mat_def)
  then show ?thesis
    by (simp add: solve_triangular_def np_sum_axis0_def ncols_def mk_vec_def)
next
  case False
  then have N: "0 < N" by simp
  have D: "D = mk_mat N d (\<lambda>i j. D ! i ! j)"
    using assms(1) by (rule is_mat_eq)
  have len: "length D = N" using assms(1) by (simp add: is_mat_def)
  have "np_T (np_T (mk_mat N d (\<lambda>i j. D ! i ! j))) = mk_mat N d (\<lambda>i j. D ! i ! j)"
    by (simp add: N assms(2))
  then have 1: "np_T (np_T D) = D"
    unfolding D[symmetric] .
  have 2: "map (\<lambda>b. forward_sub L b (length L)) D =
      mk_mat N d (\<lambda>n k. forward_sub L (D ! n) d ! k)"
    using len by (auto simp: assms(3) intro!: nth_equalityI)
  have 3: "map np_square (mk_mat d N (\<lambda>i j. forward_sub L (D ! j) d ! i)) =
      mk_mat d N (\<lambda>i j. (forward_sub L (D ! j) d ! i)\<^sup>2)"
    by (auto simp: np_square_def power2_eq_square intro!: nth_equalityI)
  show ?thesis
    unfolding solve_triangular_def 1 2
    using N assms(2) len
    by (auto simp: 3 np_sum_axis0_def intro!: nth_equalityI)
qed

lemma distance_tail:
  assumes "is_mat N d ms" "length m = d" "length c = d" "0 < d"
  shows "(case np_sub_mv ms m of
            Inl e \<Rightarrow> Inl e
          | Inr dist1 \<Rightarrow>
              if metric = ''gaussian'' then Inr (np_sum_axis1 (map np_square dist1))
              else if metric = ''maha'' then
                (case cholesky c of
                   Inl e \<Rightarrow> Inl e
                 | Inr cholesky_factor \<Rightarrow>
                     Inr (np_sum_axis0 (map np_square
                            (solve_triangular cholesky_factor (np_T dist1)))))
              else Inl InvalidMetric) =
         squared_distances m c ms metric"
proof -
  let ?D = "map (\<lambda>row. map2 (-) row m) ms"
  have sub: "np_sub_mv ms m = Inr ?D"
    using assms(1,2) by (rule np_sub_mv_ok)
  have rows: "\<And>z. z \<in> set ms \<Longrightarrow> length z = length m"
    using assms(1,2) by (auto simp: is_mat_def list_all_iff)
  have D: "is_mat N d ?D"
    using assms(1,2) by (auto simp: is_mat_def list_all_iff)
  have g: "np_sum_axis1 (map np_square ?D) =
      map (\<lambda>z. \<Sum>k<length m. (z ! k - m ! k)\<^sup>2) ms"
    by (simp add: np_sum_axis1_def gaussian_row rows cong: map_cong)
  have mh: "np_sum_axis0 (map np_square (solve_triangular L (np_T ?D))) =
      map (\<lambda>z. \<Sum>k<length m. (forward_sub L (map2 (-) z m) (length m) ! k)\<^sup>2) ms"
    if "cholesky c = Inr L" for L
  proof -
    have "length L = d"
      using length_cholesky[OF that] assms(3) by simp
    from maha_tail[OF D assms(4) this] show ?thesis
      by (simp add: assms(2) comp_def)
  qed
  show ?thesis
  proof (cases "cholesky c")
    case (Inl e)
    then show ?thesis
      unfolding sub squared_distances_def sum.case g by simp
  next
    case (Inr L)
    with mh[OF Inr] show ?thesis
      unfolding sub squared_distances_def sum.case g by simp
  qed
qed

lemma gating_distance_eq:
  assumes "length mean = 8" "is_mat 8 8 covariance" "is_mat N 4 measurements"
  shows "gating_distance KalmanFilter mean covariance measurements only_position metric =
     (case project KalmanFilter mean covariance of
        Inl e \<Rightarrow> Inl e
      | Inr (pm, pc) \<Rightarrow>
          if only_position
          then squared_distances (take 2 pm) (map (take 2) (take 2 pc))
                 (map (take 2) measurements) metric
          else squared_distances pm pc measurements metric)"
proof -
  obtain pm pc where pc: "project KalmanFilter mean covariance = Inr (pm, pc)"
    and pm: "length pm = 4" and shape: "is_mat 4 4 pc"
    using project_eq[OF assms(1,2)] assms(1) by simp
  have 1: "is_mat N 2 (map (take 2) measurements)"
    using assms(3) by (auto simp: is_mat_def list_all_iff)
  have 2: "length (take 2 pm) = 2" "length (map (take 2) (take 2 pc)) = 2" "length pc = 4"
    using pm shape by (auto simp: is_mat_def)
  show ?thesis
  proof (cases only_position)
    case True
    show ?thesis
      unfolding gating_distance_def pc Let_def sum.case prod.case
      using distance_tail[OF 1 2(1) 2(2), of metric] True by simp
  next
    case False
    show ?thesis
      unfolding gating_distance_def pc Let_def sum.case prod.case
      using distance_tail[OF assms(3) pm 2(3), of metric] False by simp
  qed
qed

text \<open>
  C6, as the claim states it, holds for every mean: the call would fail on the metric
  before anything is computed. The code projects the state first, and reads \<^verbatim>\<open>mean[3]\<close>
  there: a mean of three elements fails with \<^verbatim>\<open>IndexError\<close>, whatever the metric.
\<close>

theorem gating_distance_short_mean:
  "gating_distance KalmanFilter [0, 0, 0] (np_eye 8 8) [[0, 0, 0, 0]] False ''euclid'' =
     Inl IndexError"
  by (simp add: gating_distance_def project_def)

text \<open>
  C6, amended. For every 8-vector mean, 8x8 covariance, Nx4 batch of measurements and
  either value of \<^verbatim>\<open>only_position\<close>, \<^verbatim>\<open>gating_distance\<close> with a metric other than
  \<open>gaussian\<close> and \<open>maha\<close> fails with the invalid-metric error and returns no distances.
  (The metric is looked at after the projection and the difference, so on arrays of other
  shapes the error of those steps comes first.)
\<close>

theorem gating_distance_unknown_metric:
  assumes "length mean = 8" and "is_mat 8 8 covariance" and "is_mat N 4 measurements"
    and "metric \<noteq> ''gaussian''" and "metric \<noteq> ''maha''"
  shows "gating_distance KalmanFilter mean covariance measurements only_position metric =
           Inl InvalidMetric"
  using assms(4,5)
  by (simp add: gating_distance_eq[OF assms(1-3)] project_eq[OF assms(1,2)]
      squared_distances_def)

theorem gating_distance_unknown_metric_witness:
  "length [1, 2, 3, 4, 5, 6, 7, 8 :: real] = 8 \<and> is_mat 8 8 (np_eye 8 8) \<and>
   is_mat 2 4 [[1, 2, 3, 4], [2, 3, 4, 5 :: real]] \<and>
   ''euclid'' \<noteq> ''gaussian'' \<and> ''euclid'' \<noteq> ''maha'' \<and>
   gating_distance KalmanFilter [1, 2, 3, 4, 5, 6, 7, 8] (np_eye 8 8)
     [[1, 2, 3, 4], [2, 3, 4, 5]] True ''euclid'' = Inl InvalidMetric"
proof -
  have h: "is_mat 2 4 [[1, 2, 3, 4], [2, 3, 4, 5 :: real]]"
    by (simp add: is_mat_def)
  from gating_distance_unknown_metric [of "[1, 2, 3, 4, 5, 6, 7, 8]" "np_eye 8 8" 2
      "[[1, 2, 3, 4], [2, 3, 4, 5]]" "''euclid''" True] h
  show ?thesis by simp
qed

text \<open>
  C9. For every 8-vector mean, 8x8 covariance and Nx4 batch of measurements,
  \<^verbatim>\<open>gating_distance\<close> with \<^verbatim>\<open>only_position = True\<close> is the distance computation
  carried out on the first two components of the projected mean, the leading 2x2 block of
  the projected covariance and the first two components of every measurement, so it depends
  on nothing else; and an array it returns has one entry for each measurement.
\<close>

theorem gating_distance_only_position:
  assumes "length mean = 8" and "is_mat 8 8 covariance" and "is_mat N 4 measurements"
  shows "\<exists>pm pc. project KalmanFilter mean covariance = Inr (pm, pc) \<and>
           gating_distance KalmanFilter mean covariance measurements True metric =
             squared_distances (take 2 pm) (map (take 2) (take 2 pc))
               (map (take 2) measurements) metric \<and>
           (\<forall>d. gating_distance KalmanFilter mean covariance measurements True metric = Inr d
                 \<longrightarrow> length d = length measurements)"
proof -
  obtain pm pc where p: "project KalmanFilter mean covariance = Inr (pm, pc)"
    using project_eq[OF assms(1,2)] by simp
  have eq: "gating_distance KalmanFilter mean covariance measurements True metric =
      squared_distances (take 2 pm) (map (take 2) (take 2 pc))
        (map (take 2) measurements) metric"
    by (simp add: gating_distance_eq[OF assms] p)
  have "length d = length measurements"
    if "squared_distances (take 2 pm) (map (take 2) (take 2 pc))
          (map (take 2) measurements) metric = Inr d" for d
    using that by (auto simp: squared_distances_def split: if_splits sum.splits)
  with p eq show ?thesis by auto
qed

theorem gating_distance_only_position_witness:
  "length [1, 2, 3, 4, 5, 6, 7, 8 :: real] = 8 \<and> is_mat 8 8 (np_eye 8 8) \<and>
   is_mat 2 4 [[1, 2, 3, 4], [2, 3, 4, 5 :: real]] \<and>
   (\<exists>pm pc. project KalmanFilter [1, 2, 3, 4, 5, 6, 7, 8] (np_eye 8 8) = Inr (pm, pc) \<and>
      gating_distance KalmanFilter [1, 2, 3, 4, 5, 6, 7, 8] (np_eye 8 8)
          [[1, 2, 3, 4], [2, 3, 4, 5]] True ''gaussian'' =
        squared_distances (take 2 pm) (map (take 2) (take 2 pc))
          (map (take 2) [[1, 2, 3, 4], [2, 3, 4, 5]]) ''gaussian'')"
proof -
  have h: "is_mat 2 4 [[1, 2, 3, 4], [2, 3, 4, 5 :: real]]"
    by (simp add: is_mat_def)
  from gating_distance_only_position [of "[1, 2, 3, 4, 5, 6, 7, 8]" "np_eye 8 8" 2
      "[[1, 2, 3, 4], [2, 3, 4, 5]]" "''gaussian''"] h
  show ?thesis by auto
qed

section \<open>Triangular solves and the Cholesky factor\<close>

lemma forward_sub_Suc_nth:
  "k < i \<Longrightarrow> forward_sub L b (Suc i) ! k = forward_sub L b i ! k"
  by (simp add: Let_def nth_append)

lemma forward_sub_prefix:
  "k < i \<Longrightarrow> i \<le> n \<Longrightarrow> forward_sub L b n ! k = forward_sub L b i ! k"
proof (induction n)
  case 0
  then show ?case by simp
next
  case (Suc n)
  show ?case
  proof (cases "i = Suc n")
    case True
    then show ?thesis by simp
  next
    case False
    with Suc.prems have "i \<le> n" by simp
    with Suc.prems Suc.IH have "forward_sub L b n ! k = forward_sub L b i ! k" by simp
    moreover have "k < n" using Suc.prems \<open>i \<le> n\<close> by simp
    ultimately show ?thesis by (simp add: forward_sub_Suc_nth del: forward_sub.simps)
  qed
qed

lemma forward_sub_nth:
  assumes "k < n"
  shows "forward_sub L b n ! k =
           (b ! k - (\<Sum>j<k. L ! k ! j * forward_sub L b n ! j)) / L ! k ! k"
proof -
  have "forward_sub L b n ! k = forward_sub L b (Suc k) ! k"
    using assms by (intro forward_sub_prefix) simp_all
  also have "\<dots> = (b ! k - (\<Sum>j<k. L ! k ! j * forward_sub L b k ! j)) / L ! k ! k"
    by (simp add: Let_def nth_append)
  also have "(\<Sum>j<k. L ! k ! j * forward_sub L b k ! j) =
      (\<Sum>j<k. L ! k ! j * forward_sub L b n ! j)"
    using assms by (intro sum.cong refl) (simp add: forward_sub_prefix[of _ k n])
  finally show ?thesis .
qed

text \<open>The lower-triangular system solved by forward substitution.\<close>

lemma forward_sub_solves:
  assumes "k < n" "L ! k ! k \<noteq> 0"
  shows "(\<Sum>j\<le>k. L ! k ! j * forward_sub L b n ! j) = b ! k"
proof -
  have "(\<Sum>j\<le>k. L ! k ! j * forward_sub L b n ! j) =
      (\<Sum>j<k. L ! k ! j * forward_sub L b n ! j) + L ! k ! k * forward_sub L b n ! k"
    by (simp add: lessThan_Suc_atMost[symmetric])
  also have "L ! k ! k * forward_sub L b n ! k =
      b ! k - (\<Sum>j<k. L ! k ! j * forward_sub L b n ! j)"
    using assms by (subst forward_sub_nth) simp_all
  finally show ?thesis by simp
qed

lemma length_back_sub [simp]: "length (back_sub L y n m) = m"
  by (induction m) (simp_all add: Let_def)

lemma back_sub_suffix:
  "j < m \<Longrightarrow> m \<le> m' \<Longrightarrow> back_sub L y n m' ! (m' - m + j) = back_sub L y n m ! j"
proof (induction m')
  case 0
  then show ?case by simp
next
  case (Suc m')
  show ?case
  proof (cases "m = Suc m'")
    case True
    then show ?thesis by simp
  next
    case False
    with Suc.prems have le: "m \<le> m'" by simp
    then have "Suc m' - m + j = Suc (m' - m + j)" by simp
    then show ?thesis
      using Suc.IH[OF Suc.prems(1) le] by (simp add: Let_def)
  qed
qed

lemma back_sub_nth:
  assumes "i < n"
  shows "back_sub L y n n ! i =
     (y ! i - (\<Sum>k<n - Suc i. L ! (Suc i + k) ! i * back_sub L y n n ! (Suc i + k))) / L ! i ! i"
proof -
  let ?m = "n - Suc i"
  have i: "n - Suc ?m = i" using assms by simp
  have "back_sub L y n n ! i = back_sub L y n n ! (n - Suc ?m + 0)"
    using i by simp
  also have "\<dots> = back_sub L y n (Suc ?m) ! 0"
    using assms by (intro back_sub_suffix) simp_all
  also have "\<dots> = (y ! i - (\<Sum>k<?m. L ! (Suc i + k) ! i * back_sub L y n ?m ! k)) / L ! i ! i"
    by (simp add: Let_def i)
  also have "(\<Sum>k<?m. L ! (Suc i + k) ! i * back_sub L y n ?m ! k) =
      (\<Sum>k<?m. L ! (Suc i + k) ! i * back_sub L y n n ! (Suc i + k))"
  proof (intro sum.cong refl)
    fix k assume "k \<in> {..<?m}"
    then have k: "k < ?m" by simp
    have "back_sub L y n n ! (n - ?m + k) = back_sub L y n ?m ! k"
      using k by (intro back_sub_suffix) simp_all
    moreover have "n - ?m + k = Suc i + k" using assms by simp
    ultimately show "L ! (Suc i + k) ! i * back_sub L y n ?m ! k =
        L ! (Suc i + k) ! i * back_sub L y n n ! (Suc i + k)"
      by simp
  qed
  finally show ?thesis .
qed

text \<open>The upper-triangular system \<open>L\<^sup>T x = y\<close> solved by back substitution.\<close>

lemma back_sub_solves:
  assumes "i < n" "L ! i ! i \<noteq> 0"
  shows "(\<Sum>a = i..<n. L ! a ! i * back_sub L y n n ! a) = y ! i"
proof -
  let ?x = "back_sub L y n n"
  have "(\<Sum>a = i..<n. L ! a ! i * ?x ! a) =
      L ! i ! i * ?x ! i + (\<Sum>a = Suc i..<n. L ! a ! i * ?x ! a)"
    using assms(1) by (simp add: sum.atLeast_Suc_lessThan)
  also have "(\<Sum>a = Suc i..<n. L ! a ! i * ?x ! a) =
      (\<Sum>k<n - Suc i. L ! (Suc i + k) ! i * ?x ! (Suc i + k))"
    using sum.shift_bounds_nat_ivl[of "\<lambda>a. L ! a ! i * ?x ! a" 0 "Suc i" "n - Suc i"] assms(1)
    by (simp add: atLeast0LessThan add.commute)
  also have "L ! i ! i * ?x ! i =
      y ! i - (\<Sum>k<n - Suc i. L ! (Suc i + k) ! i * ?x ! (Suc i + k))"
    using assms by (subst back_sub_nth) simp_all
  finally show ?thesis by simp
qed

subsection \<open>The factorisation keeps its invariant\<close>

lemma chol_inv_step:
  assumes inv: "chol_inv S i L"
    and l: "l = forward_sub L (S ! i) i"
    and d: "d = S ! i ! i - (\<Sum>k<i. l ! k * l ! k)" "0 < d"
  shows "chol_inv S (Suc i) (L @ [l @ [sqrt d]])"
proof -
  let ?L = "L @ [l @ [sqrt d]]"
  have len: "length L = i" using inv by (simp add: chol_inv_def)
  have ll: "length l = i" by (simp add: l)
  have old: "?L ! r = L ! r" if "r < i" for r
    using that len by (simp add: nth_append)
  have new: "?L ! i = l @ [sqrt d]"
    using len by (simp add: nth_append)
  have row: "length (?L ! r) = Suc r \<and> 0 < ?L ! r ! r \<and>
        (\<forall>c\<le>r. (\<Sum>k\<le>c. ?L ! r ! k * ?L ! c ! k) = S ! r ! c)" if "r < Suc i" for r
  proof (cases "r = i")
    case False
    with that have r: "r < i" by simp
    have "(\<Sum>k\<le>c. ?L ! r ! k * ?L ! c ! k) = S ! r ! c" if "c \<le> r" for c
    proof -
      have "c < i" using that r by simp
      with inv r that show ?thesis by (simp add: old chol_inv_def)
    qed
    with inv r show ?thesis by (simp add: old chol_inv_def)
  next
    case True
    have diag: "(\<Sum>k\<le>i. ?L ! i ! k * ?L ! i ! k) = S ! i ! i"
    proof -
      have "(\<Sum>k\<le>i. ?L ! i ! k * ?L ! i ! k) =
          (\<Sum>k<i. ?L ! i ! k * ?L ! i ! k) + ?L ! i ! i * ?L ! i ! i"
        by (simp add: lessThan_Suc_atMost[symmetric])
      also have "(\<Sum>k<i. ?L ! i ! k * ?L ! i ! k) = (\<Sum>k<i. l ! k * l ! k)"
        unfolding new by (intro sum.cong refl) (simp add: nth_append ll)
      also have "?L ! i ! i * ?L ! i ! i = d"
        unfolding new using d(2) by (simp add: nth_append ll)
      finally show ?thesis by (simp add: d(1))
    qed
    have off: "(\<Sum>k\<le>c. ?L ! i ! k * ?L ! c ! k) = S ! i ! c" if "c < i" for c
    proof -
      have pos: "L ! c ! c \<noteq> 0" using inv that by (auto simp: chol_inv_def)
      have "(\<Sum>k\<le>c. ?L ! i ! k * ?L ! c ! k) = (\<Sum>k\<le>c. L ! c ! k * l ! k)"
        unfolding new using that
        by (intro sum.cong refl) (simp add: old, simp add: nth_append ll mult.commute)
      also have "\<dots> = S ! i ! c"
        unfolding l using that pos by (rule forward_sub_solves)
      finally show ?thesis .
    qed
    have "(\<Sum>k\<le>c. ?L ! i ! k * ?L ! c ! k) = S ! i ! c" if "c \<le> i" for c
      using that diag off by (cases "c = i") auto
    moreover have "length (?L ! i) = Suc i" "0 < ?L ! i ! i"
      unfolding new using d(2) by (simp_all add: ll nth_append)
    ultimately show ?thesis using True by simp
  qed
  show ?thesis
    unfolding chol_inv_def using len row by simp
qed

lemma chol_rows_inv: "chol_rows S i = Inr L \<Longrightarrow> chol_inv S i L"
proof (induction i arbitrary: L)
  case 0
  then show ?case by (simp add: chol_inv_def)
next
  case (Suc i)
  then obtain L0 where L0: "chol_rows S i = Inr L0"
    by (auto split: sum.splits)
  let ?l = "forward_sub L0 (S ! i) i"
  let ?d = "S ! i ! i - (\<Sum>k<i. ?l ! k * ?l ! k)"
  from Suc.prems L0 have d: "0 < ?d" and L: "L = L0 @ [?l @ [sqrt ?d]]"
    by (auto simp: Let_def split: if_splits)
  show ?case
    unfolding L using Suc.IH[OF L0] refl refl d by (rule chol_inv_step)
qed

subsection \<open>Every pivot of a positive definite matrix is positive\<close>

lemma pivot_algebra:
  fixes s lf :: "nat \<Rightarrow> nat \<Rightarrow> real" and y l :: "nat \<Rightarrow> real"
  assumes S: "\<And>a b. a < i \<Longrightarrow> b < i \<Longrightarrow> s a b = (\<Sum>k<i. lf a k * lf b k)"
    and Lty: "\<And>k. k < i \<Longrightarrow> (\<Sum>a<i. lf a k * y a) = l k"
    and Ll: "\<And>a. a < i \<Longrightarrow> (\<Sum>k<i. lf a k * l k) = s i a"
    and sym: "\<And>a. a < i \<Longrightarrow> s a i = s i a"
  shows "(\<Sum>a<Suc i. \<Sum>b<Suc i.
            (if a < i then - y a else 1) * s a b * (if b < i then - y b else 1)) =
         s i i - (\<Sum>k<i. l k * l k)"
proof -
  have A: "(\<Sum>a<i. \<Sum>b<i. y a * s a b * y b) = (\<Sum>k<i. l k * l k)"
  proof -
    have "(\<Sum>a<i. \<Sum>b<i. y a * s a b * y b) =
        (\<Sum>a<i. \<Sum>b<i. \<Sum>k<i. (lf a k * y a) * (lf b k * y b))"
      by (intro sum.cong refl) (simp add: S sum_distrib_left sum_distrib_right mult_ac)
    also have "\<dots> = (\<Sum>a<i. \<Sum>k<i. \<Sum>b<i. (lf a k * y a) * (lf b k * y b))"
      by (intro sum.cong refl sum.swap)
    also have "\<dots> = (\<Sum>k<i. \<Sum>a<i. \<Sum>b<i. (lf a k * y a) * (lf b k * y b))"
      by (rule sum.swap)
    also have "\<dots> = (\<Sum>k<i. (\<Sum>a<i. lf a k * y a) * (\<Sum>b<i. lf b k * y b))"
      by (simp add: sum_product)
    also have "\<dots> = (\<Sum>k<i. l k * l k)"
      by (intro sum.cong refl) (simp add: Lty)
    finally show ?thesis .
  qed
  have B: "(\<Sum>a<i. y a * s i a) = (\<Sum>k<i. l k * l k)"
  proof -
    have "(\<Sum>a<i. y a * s i a) = (\<Sum>a<i. \<Sum>k<i. (lf a k * y a) * l k)"
      by (intro sum.cong refl) (simp add: Ll[symmetric] sum_distrib_left mult_ac)
    also have "\<dots> = (\<Sum>k<i. \<Sum>a<i. (lf a k * y a) * l k)"
      by (rule sum.swap)
    also have "\<dots> = (\<Sum>k<i. (\<Sum>a<i. lf a k * y a) * l k)"
      by (simp add: sum_distrib_right)
    also have "\<dots> = (\<Sum>k<i. l k * l k)"
      by (intro sum.cong refl) (simp add: Lty)
    finally show ?thesis .
  qed
  have B': "(\<Sum>a<i. y a * s a i) = (\<Sum>k<i. l k * l k)"
    using B by (simp add: sym)
  have "(\<Sum>a<Suc i. \<Sum>b<Suc i.
            (if a < i then - y a else 1) * s a b * (if b < i then - y b else 1)) =
      (\<Sum>a<i. \<Sum>b<i. y a * s a b * y b) - (\<Sum>a<i. y a * s a i)
        - (\<Sum>b<i. y b * s i b) + s i i"
    by (simp add: sum.distrib sum_subtractf sum_negf mult.commute)
  then show ?thesis
    by (simp add: A B B')
qed

lemma tri_sum_le: "b < (i::nat) \<Longrightarrow> (\<Sum>k<i. if k \<le> b then f k else 0) = (\<Sum>k\<le>b. f k :: real)"
proof -
  assume "b < i"
  then have "{..<i} \<inter> {k. k \<le> b} = {..b}" by auto
  then show ?thesis by (simp add: sum.If_cases)
qed

lemma tri_sum_ge: "(\<Sum>a<(i::nat). if k \<le> a then f a else 0) = (\<Sum>a = k..<i. f a :: real)"
proof -
  have "{..<i} \<inter> {a. k \<le> a} = {k..<i}" by auto
  then show ?thesis by (simp add: sum.If_cases)
qed

lemma quad_form_restrict:
  assumes "m \<le> n" "\<And>a. m \<le> a \<Longrightarrow> x a = 0"
  shows "quad_form n S x = (\<Sum>a<m. \<Sum>b<m. x a * S ! a ! b * x b)"
proof -
  have "quad_form n S x = (\<Sum>a<m. \<Sum>b<n. x a * S ! a ! b * x b)"
    unfolding quad_form_def using assms
    by (intro sum.mono_neutral_right) auto
  also have "\<dots> = (\<Sum>a<m. \<Sum>b<m. x a * S ! a ! b * x b)"
    using assms by (intro sum.cong refl sum.mono_neutral_right) auto
  finally show ?thesis .
qed

lemma chol_inv_product:
  assumes inv: "chol_inv S i L" and "a < i" "b < i"
    and sym: "S ! a ! b = S ! b ! a"
  shows "S ! a ! b =
     (\<Sum>k<i. (if k \<le> a then L ! a ! k else 0) * (if k \<le> b then L ! b ! k else 0))"
proof (cases "b \<le> a")
  case True
  have "(\<Sum>k<i. (if k \<le> a then L ! a ! k else 0) * (if k \<le> b then L ! b ! k else 0)) =
      (\<Sum>k<i. if k \<le> b then L ! a ! k * L ! b ! k else 0)"
    using True by (intro sum.cong refl) auto
  also have "\<dots> = (\<Sum>k\<le>b. L ! a ! k * L ! b ! k)"
    using assms(3) by (rule tri_sum_le)
  also have "\<dots> = S ! a ! b"
    using inv assms(2) True by (simp add: chol_inv_def)
  finally show ?thesis by simp
next
  case False
  then have le: "a \<le> b" by simp
  have "(\<Sum>k<i. (if k \<le> a then L ! a ! k else 0) * (if k \<le> b then L ! b ! k else 0)) =
      (\<Sum>k<i. if k \<le> a then L ! b ! k * L ! a ! k else 0)"
    using le by (intro sum.cong refl) auto
  also have "\<dots> = (\<Sum>k\<le>a. L ! b ! k * L ! a ! k)"
    using assms(2) by (rule tri_sum_le)
  also have "\<dots> = S ! b ! a"
    using inv assms(3) le by (simp add: chol_inv_def)
  finally show ?thesis by (simp add: sym)
qed

lemma pdD: "pd n S \<Longrightarrow> k < n \<Longrightarrow> x k \<noteq> 0 \<Longrightarrow> 0 < quad_form n S x"
  by (auto simp: pd_def)

lemma chol_pivot_pos:
  assumes inv: "chol_inv S i L" and i: "i < n"
    and sym: "\<And>a b. a < n \<Longrightarrow> b < n \<Longrightarrow> S ! a ! b = S ! b ! a"
    and pd: "pd n S"
  shows "0 < S ! i ! i -
     (\<Sum>k<i. forward_sub L (S ! i) i ! k * forward_sub L (S ! i) i ! k)"
proof -
  let ?l = "forward_sub L (S ! i) i"
  let ?y = "back_sub L ?l i i"
  let ?lf = "\<lambda>a k. if k \<le> a then L ! a ! k else 0"
  let ?x = "\<lambda>a. if a < i then - ?y ! a else if a = i then 1 else (0::real)"
  have nz: "L ! k ! k \<noteq> 0" if "k < i" for k
    using inv that by (auto simp: chol_inv_def)
  have S: "S ! a ! b = (\<Sum>k<i. ?lf a k * ?lf b k)" if "a < i" "b < i" for a b
    using inv that sym[of a b] i by (intro chol_inv_product) simp_all
  have Lty: "(\<Sum>a<i. ?lf a k * ?y ! a) = ?l ! k" if "k < i" for k
  proof -
    have "(\<Sum>a<i. ?lf a k * ?y ! a) = (\<Sum>a<i. if k \<le> a then L ! a ! k * ?y ! a else 0)"
      by (intro sum.cong refl) simp
    also have "\<dots> = (\<Sum>a = k..<i. L ! a ! k * ?y ! a)"
      by (rule tri_sum_ge)
    also have "\<dots> = ?l ! k"
      using that nz by (intro back_sub_solves) simp_all
    finally show ?thesis .
  qed
  have Ll: "(\<Sum>k<i. ?lf a k * ?l ! k) = S ! i ! a" if "a < i" for a
  proof -
    have "(\<Sum>k<i. ?lf a k * ?l ! k) = (\<Sum>k<i. if k \<le> a then L ! a ! k * ?l ! k else 0)"
      by (intro sum.cong refl) simp
    also have "\<dots> = (\<Sum>k\<le>a. L ! a ! k * ?l ! k)"
      using that by (rule tri_sum_le)
    also have "\<dots> = S ! i ! a"
      using that nz by (intro forward_sub_solves) simp_all
    finally show ?thesis .
  qed
  have "quad_form n S ?x = (\<Sum>a<Suc i. \<Sum>b<Suc i. ?x a * S ! a ! b * ?x b)"
    using i by (intro quad_form_restrict) auto
  also have "\<dots> = (\<Sum>a<Suc i. \<Sum>b<Suc i.
      (if a < i then - ?y ! a else 1) * S ! a ! b * (if b < i then - ?y ! b else 1))"
    by (intro sum.cong refl) auto
  also have "\<dots> = S ! i ! i - (\<Sum>k<i. ?l ! k * ?l ! k)"
    using S Lty Ll sym i
    by (intro pivot_algebra[where lf = ?lf]) simp_all
  finally have "quad_form n S ?x = S ! i ! i - (\<Sum>k<i. ?l ! k * ?l ! k)" .
  moreover have "0 < quad_form n S ?x"
    by (rule pdD[OF pd i]) simp
  ultimately show ?thesis by simp
qed

lemma chol_rows_succeeds:
  assumes sym: "\<And>a b. a < n \<Longrightarrow> b < n \<Longrightarrow> S ! a ! b = S ! b ! a"
    and pd: "pd n S" and "i \<le> n"
  shows "\<exists>L. chol_rows S i = Inr L"
  using assms(3)
proof (induction i)
  case 0
  then show ?case by simp
next
  case (Suc i)
  then obtain L where L: "chol_rows S i = Inr L" by auto
  have "0 < S ! i ! i -
     (\<Sum>k<i. forward_sub L (S ! i) i ! k * forward_sub L (S ! i) i ! k)"
    using chol_rows_inv[OF L] Suc.prems sym pd by (intro chol_pivot_pos[where n = n]) simp_all
  then show ?case
    by (simp add: L Let_def)
qed

subsection \<open>The factor and the solution of the system\<close>


lemma cholesky_succeeds:
  assumes "\<And>a b. a < length S \<Longrightarrow> b < length S \<Longrightarrow> S ! a ! b = S ! b ! a"
    and "pd (length S) S"
  shows "\<exists>L. cholesky S = Inr L"
proof -
  obtain L where "chol_rows S (length S) = Inr L"
    using chol_rows_succeeds[OF assms(1,2) order_refl] by auto
  then show ?thesis by (simp add: cholesky_def)
qed


subsection \<open>What update computes\<close>

lemma project_shape:
  assumes "length mean = 8" "is_mat 8 8 covariance"
    and "project KalmanFilter mean covariance = Inr (pm, S)"
  shows "pm = take 4 mean" and "is_mat 4 4 S"
    and "\<And>a b. a < 4 \<Longrightarrow> b < 4 \<Longrightarrow> S ! a ! b =
           covariance ! a ! b + (if a = b then (observation_std (mean ! 3) ! a)\<^sup>2 else 0)"
  using assms(3) unfolding project_eq[OF assms(1,2)] by auto

lemma update_eq:
  assumes mean: "length mean = 8" and P: "is_mat 8 8 P" and z: "length z = 4"
    and proj: "project KalmanFilter mean P = Inr (pm, S)"
    and chol: "cholesky S = Inr L"
  defines "K \<equiv> \<lambda>i. back_sub L (forward_sub L (take 4 (P ! i)) 4) 4 4"
  shows "update KalmanFilter mean P z =
     Inr (mk_vec 8 (\<lambda>i. mean ! i + (\<Sum>k<4. (z ! k - pm ! k) * K i ! k)),
          mk_mat 8 8 (\<lambda>i j. P ! i ! j - (\<Sum>a<4. K i ! a * (\<Sum>b<4. S ! a ! b * K j ! b))))"
proof -
  have S: "is_mat 4 4 S" and pm: "length pm = 4"
    using project_shape[OF mean P proj] mean by simp_all
  have Seq: "S = mk_mat 4 4 (\<lambda>a b. S ! a ! b)"
    using S by (rule is_mat_eq)
  have Peq: "P = mk_mat 8 8 (\<lambda>i j. P ! i ! j)"
    using P by (rule is_mat_eq)
  have meq: "mean = mk_vec 8 (\<lambda>i. mean ! i)"
    using mean by (rule vec_eq)
  have lenL: "length L = 4"
    using length_cholesky[OF chol] S by (simp add: is_mat_def)
  let ?b = "mk_mat 8 4 (\<lambda>i j. P ! i ! j)"
  have b: "np_dot_mm P (np_T (update_mat KalmanFilter)) = Inr ?b"
    apply (subst Peq)
    apply (simp add: update_mat_KalmanFilter)
    apply (rule mk_mat_cong)
    apply (simp add: sum_delta_right)
    done
  have brow: "?b ! i = take 4 (P ! i)" if "i < 8" for i
    using that P by (auto simp: is_mat_iff intro!: nth_equalityI)
  have TT: "np_T (np_T ?b) = ?b"
    by simp
  have rows: "map (\<lambda>b. back_sub L (forward_sub L b (length L)) (length L) (length L)) ?b =
      mk_mat 8 4 (\<lambda>i k. K i ! k)"
  proof (rule nth_equalityI)
    show "length (map (\<lambda>b. back_sub L (forward_sub L b (length L)) (length L) (length L)) ?b) =
        length (mk_mat 8 4 (\<lambda>i k. K i ! k))"
      by simp
  next
    fix i
    assume "i < length (map (\<lambda>b. back_sub L (forward_sub L b (length L)) (length L) (length L)) ?b)"
    then have i: "i < 8" by simp
    have "map (\<lambda>b. back_sub L (forward_sub L b (length L)) (length L) (length L)) ?b ! i =
        back_sub L (forward_sub L (?b ! i) 4) 4 4"
      using i by (simp add: lenL del: nth_mk_mat)
    then have "map (\<lambda>b. back_sub L (forward_sub L b (length L)) (length L) (length L)) ?b ! i =
        K i"
      unfolding brow[OF i] K_def .
    moreover have "mk_mat 8 4 (\<lambda>i k. K i ! k) ! i = K i"
      using i by (auto simp: K_def intro!: nth_equalityI)
    ultimately show "map (\<lambda>b. back_sub L (forward_sub L b (length L)) (length L) (length L)) ?b ! i =
        mk_mat 8 4 (\<lambda>i k. K i ! k) ! i"
      by simp
  qed
  have gain: "np_T (cho_solve L (np_T ?b)) = mk_mat 8 4 (\<lambda>i k. K i ! k)"
    unfolding cho_solve_def TT rows by simp
  have innov: "np_sub_vv z pm = Inr (mk_vec 4 (\<lambda>k. z ! k - pm ! k))"
    using z pm by (auto simp: np_sub_vv_def sub_broadcast_def intro!: nth_equalityI)
  have delta: "np_dot_vm (mk_vec 4 (\<lambda>k. z ! k - pm ! k)) (np_T (mk_mat 8 4 (\<lambda>i k. K i ! k))) =
      Inr (mk_vec 8 (\<lambda>i. \<Sum>k<4. (z ! k - pm ! k) * K i ! k))"
    by simp
  have g: "multi_dot (mk_mat 8 4 (\<lambda>i k. K i ! k)) S (np_T (mk_mat 8 4 (\<lambda>i k. K i ! k))) =
      Inr (mk_mat 8 8 (\<lambda>i j. \<Sum>a<4. K i ! a * (\<Sum>b<4. S ! a ! b * K j ! b)))"
    by (subst Seq) simp
  have add: "vec_add mean (mk_vec 8 (\<lambda>i. \<Sum>k<4. (z ! k - pm ! k) * K i ! k)) =
      mk_vec 8 (\<lambda>i. mean ! i + (\<Sum>k<4. (z ! k - pm ! k) * K i ! k))"
    by (subst meq) simp
  have sub: "mat_sub P (mk_mat 8 8 (\<lambda>i j. \<Sum>a<4. K i ! a * (\<Sum>b<4. S ! a ! b * K j ! b))) =
      mk_mat 8 8 (\<lambda>i j. P ! i ! j - (\<Sum>a<4. K i ! a * (\<Sum>b<4. S ! a ! b * K j ! b)))"
    by (subst Peq) simp
  show ?thesis
    unfolding update_def proj cho_factor_def chol b Let_def sum.case prod.case gain innov
      delta g add sub ..
qed

lemma symmetricD:
  assumes "symmetric n M" "a < n" "b < n"
  shows "M ! a ! b = M ! b ! a"
proof -
  have m: "is_mat n n M" and t: "np_T M = M"
    using assms(1) by (simp_all add: symmetric_def)
  have "0 < n" using assms(2) by simp
  then have "np_T M = mk_mat n n (\<lambda>i j. M ! j ! i)"
    using m by (simp add: np_T_def ncols_is_mat[OF m] is_mat_def)
  then have "M ! a ! b = mk_mat n n (\<lambda>i j. M ! j ! i) ! a ! b"
    using t by simp
  then show ?thesis using assms(2,3) by simp
qed


lemma pd_nonneg:
  assumes "pd n S"
  shows "0 \<le> quad_form n S x"
proof (cases "\<exists>k<n. x k \<noteq> 0")
  case True
  then show ?thesis using assms by (auto simp: pd_def intro: less_imp_le)
next
  case False
  then have "quad_form n S x = 0"
    by (simp add: quad_form_def)
  then show ?thesis by simp
qed

lemma projected_symmetric:
  assumes "length mean = 8" "symmetric 8 P"
    and "project KalmanFilter mean P = Inr (pm, S)"
    and "a < 4" "b < 4"
  shows "S ! a ! b = S ! b ! a"
proof -
  have P: "is_mat 8 8 P" using assms(2) by (simp add: symmetric_def)
  have "P ! a ! b = P ! b ! a"
    using assms(2,4,5) by (intro symmetricD[where n = 8]) simp_all
  then show ?thesis
    using project_shape(3)[OF assms(1) P assms(3)] assms(4,5) by auto
qed

lemma update_returns:
  assumes mean: "length mean = 8" and P: "symmetric 8 P" and z: "length z = 4"
    and proj: "project KalmanFilter mean P = Inr (pm, S)"
    and pd: "pd 4 S"
  obtains L where "cholesky S = Inr L"
proof -
  have m: "is_mat 8 8 P" using P by (simp add: symmetric_def)
  have len: "length S = 4"
    using project_shape(2)[OF mean m proj] by (simp add: is_mat_def)
  have "\<exists>L. cholesky S = Inr L"
    using projected_symmetric[OF mean P proj] pd
    by (intro cholesky_succeeds) (simp_all add: len)
  then show ?thesis using that by blast
qed

lemma update_independent:
  assumes "length mean = 8" and "symmetric 8 P"
    and "length m1 = 4" and "length m2 = 4"
    and "project KalmanFilter mean P = Inr (pm, S)" and "pd 4 S"
  shows "\<exists>mu1 mu2 c. update KalmanFilter mean P m1 = Inr (mu1, c) \<and>
           update KalmanFilter mean P m2 = Inr (mu2, c)"
proof -
  have m: "is_mat 8 8 P" using assms(2) by (simp add: symmetric_def)
  obtain L where L: "cholesky S = Inr L"
    using assms by (elim update_returns)
  show ?thesis
    unfolding update_eq[OF assms(1) m assms(3) assms(5) L]
      update_eq[OF assms(1) m assms(4) assms(5) L]
    by blast
qed

lemma trace_mk_mat: "trace (mk_mat n n f) = (\<Sum>i<n. f i i)"
  by (simp add: trace_def)

lemma update_trace:
  assumes "length mean = 8" and "symmetric 8 P" and "length z = 4"
    and "project KalmanFilter mean P = Inr (pm, S)" and "pd 4 S"
  shows "\<exists>mu c. update KalmanFilter mean P z = Inr (mu, c) \<and> trace c \<le> trace P"
proof -
  have m: "is_mat 8 8 P" using assms(2) by (simp add: symmetric_def)
  obtain L where L: "cholesky S = Inr L"
    using assms by (elim update_returns)
  let ?K = "\<lambda>i. back_sub L (forward_sub L (take 4 (P ! i)) 4) 4 4"
  let ?c = "mk_mat 8 8 (\<lambda>i j. P ! i ! j - (\<Sum>a<4. ?K i ! a * (\<Sum>b<4. S ! a ! b * ?K j ! b)))"
  have "0 \<le> (\<Sum>a<4. ?K i ! a * (\<Sum>b<4. S ! a ! b * ?K i ! b))" for i
  proof -
    have "(\<Sum>a<4. ?K i ! a * (\<Sum>b<4. S ! a ! b * ?K i ! b)) = quad_form 4 S (\<lambda>a. ?K i ! a)"
      by (simp add: quad_form_def sum_distrib_left mult.assoc)
    then show ?thesis using pd_nonneg[OF assms(5)] by simp
  qed
  then have "(\<Sum>i<8. P ! i ! i - (\<Sum>a<4. ?K i ! a * (\<Sum>b<4. S ! a ! b * ?K i ! b))) \<le>
      (\<Sum>i<8. P ! i ! i)"
    by (intro sum_mono) simp
  moreover have "length P = 8" using m by (simp add: is_mat_def)
  ultimately have "trace ?c \<le> trace P"
    unfolding trace_mk_mat by (simp add: trace_def)
  then show ?thesis
    unfolding update_eq[OF assms(1) m assms(3) assms(4) L] by blast
qed

lemma pd_diagI:
  assumes "\<And>i j. i < n \<Longrightarrow> j < n \<Longrightarrow> i \<noteq> j \<Longrightarrow> M ! i ! j = 0"
    and "\<And>i. i < n \<Longrightarrow> 0 < M ! i ! i"
  shows "pd n M"
  unfolding pd_def
proof (intro allI impI)
  fix x :: "nat \<Rightarrow> real"
  assume "\<exists>k<n. x k \<noteq> 0"
  then obtain k where k: "k < n" "x k \<noteq> 0" by blast
  have "quad_form n M x = (\<Sum>i<n. \<Sum>j<n. if i = j then x i * M ! i ! i * x i else 0)"
    unfolding quad_form_def using assms(1) by (intro sum.cong refl) auto
  also have "\<dots> = (\<Sum>i<n. x i * M ! i ! i * x i)"
    by (intro sum.cong refl) simp
  finally have q: "quad_form n M x = (\<Sum>i<n. x i * M ! i ! i * x i)" .
  have "0 < (\<Sum>i<n. x i * M ! i ! i * x i)"
  proof (rule sum_pos2[where i = k])
    have "0 < x k * x k"
      using k(2) not_real_square_gt_zero[of "x k"] by blast
    then have "0 < M ! k ! k * (x k * x k)"
      using assms(2)[OF k(1)] by (rule mult_pos_pos[rotated])
    then show "0 < x k * M ! k ! k * x k"
      by (simp add: mult_ac)
  next
    fix i assume "i \<in> {..<n}"
    then have "0 < M ! i ! i" using assms(2) by simp
    then have "0 \<le> M ! i ! i * (x i * x i)" by simp
    then show "0 \<le> x i * M ! i ! i * x i" by (simp add: mult_ac)
  qed (use k in simp_all)
  with q show "0 < quad_form n M x" by simp
qed

lemma example_project: "project KalmanFilter [0, 0, 0, 20, 0, 0, 0, 0] (np_eye 8 8) =
    Inr ([0, 0, 0, 20], [[2, 0, 0, 0], [0, 2, 0, 0], [0, 0, 101 / 100, 0], [0, 0, 0, 2]])"
  by code_simp

lemma np_eye_symmetric: "symmetric 8 (np_eye 8 8)"
  by code_simp

lemma lt4: "i < 4 \<longleftrightarrow> i = 0 \<or> i = 1 \<or> i = 2 \<or> i = (3::nat)"
  by auto

lemma example_projected_pd: "pd 4 [[2, 0, 0, 0], [0, 2, 0, 0], [0, 0, 101 / 100, 0], [0, 0, 0, 2]]"
  by (rule pd_diagI) (auto simp: lt4)

text \<open>
  The model run on one state: covariance diag(3, 3, 0.99, 3, 1, 1, 1, 1) at height 20
  projects to diag(4, 4, 1, 4), whose factor is diag(2, 2, 1, 2).
\<close>

lemma worked_project:
  "project KalmanFilter [0, 0, 0, 20, 0, 0, 0, 0] (np_diag [3, 3, 99 / 100, 3, 1, 1, 1, 1]) =
     Inr ([0, 0, 0, 20], [[4, 0, 0, 0], [0, 4, 0, 0], [0, 0, 1, 0], [0, 0, 0, 4]])"
  by code_simp

lemma worked_cholesky:
  "cholesky [[4, 0, 0, 0], [0, 4, 0, 0], [0, 0, 1, 0], [0, 0, 0, 4]] =
     Inr [[2, 0, 0, 0], [0, 2, 0, 0], [0, 0, 1, 0], [0, 0, 0, 2]]"
  by (simp add: cholesky_def eval_nat_numeral lessThan_Suc Let_def)

lemma worked_gating_distance:
  "gating_distance KalmanFilter [0, 0, 0, 20, 0, 0, 0, 0]
     (np_diag [3, 3, 99 / 100, 3, 1, 1, 1, 1]) [[2, 0, 0, 20], [0, 4, 1, 22]] False ''maha'' =
   Inr [1, 6]"
proof -
  have "is_mat 8 8 (np_diag [3, 3, 99 / 100, 3, 1, 1, 1, 1])"
    by (simp add: is_mat_np_diag)
  moreover have "is_mat 2 4 [[2, 0, 0, 20], [0, 4, 1, 22 :: real]]"
    by (simp add: is_mat_def)
  ultimately have "gating_distance KalmanFilter [0, 0, 0, 20, 0, 0, 0, 0]
     (np_diag [3, 3, 99 / 100, 3, 1, 1, 1, 1]) [[2, 0, 0, 20], [0, 4, 1, 22]] False ''maha'' =
     squared_distances [0, 0, 0, 20] [[4, 0, 0, 0], [0, 4, 0, 0], [0, 0, 1, 0], [0, 0, 0, 4]]
       [[2, 0, 0, 20], [0, 4, 1, 22]] ''maha''"
    by (subst gating_distance_eq[where N = 2]) (simp_all add: worked_project)
  also have "\<dots> = Inr [1, 6]"
    by (simp add: squared_distances_def worked_cholesky eval_nat_numeral lessThan_Suc Let_def)
  finally show ?thesis .
qed

lemma worked_update:
  "update KalmanFilter [0, 0, 0, 20, 0, 0, 0, 0]
     (np_diag [3, 3, 99 / 100, 3, 1, 1, 1, 1]) [4, 0, 1, 24] =
   Inr ([3, 0, 99 / 100, 23, 0, 0, 0, 0],
        np_diag [3 / 4, 3 / 4, 99 / 10000, 3 / 4, 1, 1, 1, 1])"
proof -
  have P: "is_mat 8 8 (np_diag [3, 3, 99 / 100, 3, 1, 1, 1, 1])"
    by (simp add: is_mat_np_diag)
  show ?thesis
    apply (subst update_eq[OF _ P _ worked_project worked_cholesky])
      apply simp
     apply simp
    apply (simp add: np_diag_def mk_mat_def mk_vec_def eval_nat_numeral lessThan_Suc Let_def)
    done
qed

section \<open>update\<close>

text \<open>
  C10. For every 8-vector mean, symmetric 8x8 covariance whose projected covariance is
  positive definite, and every two 4-vector measurements, \<^verbatim>\<open>update\<close> returns for both,
  and returns the same covariance: only the mean depends on the measurement.
\<close>

theorem update_covariance_ignores_measurement:
  assumes "length mean = 8" and "symmetric 8 covariance"
    and "length m1 = 4" and "length m2 = 4"
    and "project KalmanFilter mean covariance = Inr (projected_mean, projected_cov)"
    and "pd 4 projected_cov"
  shows "\<exists>mean1 mean2 c. update KalmanFilter mean covariance m1 = Inr (mean1, c) \<and>
           update KalmanFilter mean covariance m2 = Inr (mean2, c)"
  using assms by (rule update_independent)

theorem update_covariance_ignores_measurement_witness:
  "length [0, 0, 0, 20, 0, 0, 0, 0 :: real] = 8 \<and> symmetric 8 (np_eye 8 8) \<and>
   length [1, 1, 1, 21 :: real] = 4 \<and> length [5, 7, 2, 19 :: real] = 4 \<and>
   project KalmanFilter [0, 0, 0, 20, 0, 0, 0, 0] (np_eye 8 8) =
     Inr ([0, 0, 0, 20], [[2, 0, 0, 0], [0, 2, 0, 0], [0, 0, 101 / 100, 0], [0, 0, 0, 2]]) \<and>
   pd 4 [[2, 0, 0, 0], [0, 2, 0, 0], [0, 0, 101 / 100, 0], [0, 0, 0, 2]] \<and>
   (\<exists>mean1 mean2 c.
      update KalmanFilter [0, 0, 0, 20, 0, 0, 0, 0] (np_eye 8 8) [1, 1, 1, 21] = Inr (mean1, c) \<and>
      update KalmanFilter [0, 0, 0, 20, 0, 0, 0, 0] (np_eye 8 8) [5, 7, 2, 19] = Inr (mean2, c))"
  using update_covariance_ignores_measurement [OF _ np_eye_symmetric _ _ example_project example_projected_pd,
      of "[1, 1, 1, 21]" "[5, 7, 2, 19]"]
    np_eye_symmetric example_project example_projected_pd
  by simp

text \<open>
  C1. For every 8-vector mean, symmetric 8x8 covariance whose projected covariance is
  positive definite, and every 4-vector measurement, \<^verbatim>\<open>update\<close> returns, and the trace
  of the covariance it returns is at most the trace of the covariance passed in.
\<close>

theorem update_trace_does_not_increase:
  assumes "length mean = 8" and "symmetric 8 covariance" and "length measurement = 4"
    and "project KalmanFilter mean covariance = Inr (projected_mean, projected_cov)"
    and "pd 4 projected_cov"
  shows "\<exists>new_mean new_covariance.
           update KalmanFilter mean covariance measurement = Inr (new_mean, new_covariance) \<and>
           trace new_covariance \<le> trace covariance"
  using assms by (rule update_trace)

theorem update_trace_does_not_increase_witness:
  "length [0, 0, 0, 20, 0, 0, 0, 0 :: real] = 8 \<and> symmetric 8 (np_eye 8 8) \<and>
   length [1, 1, 1, 21 :: real] = 4 \<and>
   project KalmanFilter [0, 0, 0, 20, 0, 0, 0, 0] (np_eye 8 8) =
     Inr ([0, 0, 0, 20], [[2, 0, 0, 0], [0, 2, 0, 0], [0, 0, 101 / 100, 0], [0, 0, 0, 2]]) \<and>
   pd 4 [[2, 0, 0, 0], [0, 2, 0, 0], [0, 0, 101 / 100, 0], [0, 0, 0, 2]] \<and>
   (\<exists>new_mean new_covariance.
      update KalmanFilter [0, 0, 0, 20, 0, 0, 0, 0] (np_eye 8 8) [1, 1, 1, 21] =
        Inr (new_mean, new_covariance) \<and>
      trace new_covariance \<le> trace (np_eye 8 8))"
  using update_trace_does_not_increase [OF _ np_eye_symmetric _ example_project example_projected_pd, of "[1, 1, 1, 21]"]
    np_eye_symmetric example_project example_projected_pd
  by simp

section \<open>Symmetry and semi-definiteness of the covariance\<close>

subsection \<open>Quadratic forms\<close>





subsection \<open>The four operations\<close>














end
